theory Spec2Isabelle
  imports Complex_Main
begin

section \<open>VirtualList: the windowing and measurement core\<close>

text \<open>
  A shallow embedding of the script part of
  \<^verbatim>\<open>packages/ui/src/lib/components/VirtualList.svelte\<close>.

  Conventions of the embedding.
  \<^item> Pixel quantities (scroll offsets, heights, distances) are JavaScript numbers
    that may be fractional: \<^verbatim>\<open>scrollTop\<close> is fractional on scaled displays. They
    are modelled as \<^typ>\<open>rat\<close>, with exact arithmetic; the rounding of doubles and
    \<^verbatim>\<open>NaN\<close> are outside the model. Indices and lengths are \<^typ>\<open>int\<close>.
  \<^item> A sparse JavaScript array of numbers is a list of optional values: \<open>None\<close> is
    a hole (reads as \<^verbatim>\<open>undefined\<close>), the list length is \<^verbatim>\<open>.length\<close>.
  \<^item> The component's module-level variables and props are the fields of one record,
    passed through every function and returned updated.
  \<^item> A property access on an \<^verbatim>\<open>undefined\<close> object throws a \<^verbatim>\<open>TypeError\<close>;
    a function that can throw returns an \<open>option\<close>, with \<open>None\<close> for the throw.
  \<^item> An \<^verbatim>\<open>async\<close> function is modelled from its call up to the point where
    control goes back to the caller: its first \<^verbatim>\<open>await tick()\<close>, or its return.
    What happens after a suspension depends on the host's render commit and is not
    part of the model.
\<close>

subsection \<open>Sparse arrays\<close>

text \<open>\<^verbatim>\<open>a[i]\<close>: a hole, an index past the end and a negative index all read as undefined.\<close>

definition arr_get :: "'v option list \<Rightarrow> int \<Rightarrow> 'v option" where
  "arr_get a i = (if 0 \<le> i \<and> i < int (length a) then a ! nat i else None)"

text \<open>
  \<^verbatim>\<open>a[i] = v\<close>: an index past the end extends the array with holes. (With a negative
  index JavaScript stores a non-index property; no modelled path writes at one, and the
  list is left as it is.)
\<close>

definition arr_set :: "'v option list \<Rightarrow> int \<Rightarrow> 'v \<Rightarrow> 'v option list" where
  "arr_set a i v =
     (if i < 0 then a
      else if i < int (length a) then a[nat i := Some v]
      else a @ replicate (nat i - length a) None @ [Some v])"

text \<open>\<^verbatim>\<open>delete a[i]\<close>: leaves a hole, the length stays.\<close>

definition arr_delete :: "'v option list \<Rightarrow> int \<Rightarrow> 'v option list" where
  "arr_delete a i = (if 0 \<le> i \<and> i < int (length a) then a[nat i := None] else a)"

text \<open>\<^verbatim>\<open>a.length = n\<close>: truncates, or extends with holes.\<close>

definition arr_resize :: "'v option list \<Rightarrow> nat \<Rightarrow> 'v option list" where
  "arr_resize a n = take n a @ replicate (n - length a) None"

text \<open>\<^verbatim>\<open>new Array(n)\<close>: \<open>n\<close> holes.\<close>

definition new_Array :: "nat \<Rightarrow> 'v option list" where
  "new_Array n = replicate n None"

subsection \<open>Component state\<close>

record viewport =
  scrollTop :: rat
  clientHeight :: rat
  scrollHeight :: rat

record index_range =
  range_start :: int
  range_end :: int

record offsets =
  offset_top :: rat
  offset_bottom :: rat

record ranges =
  renderStart :: int
  renderEnd :: int
  visibleStart :: int
  visibleEnd :: int

datatype direction = Up | Down

text \<open>
  Props first, then the bound elements, then the component's variables, then the two
  pieces of host state that the functions below drive: the timer registry behind
  \<^verbatim>\<open>window.setTimeout\<close>/\<^verbatim>\<open>clearTimeout\<close>, and whether the debounced load-more call
  has been requested. \<open>visibleRowElements\<close> holds the \<^verbatim>\<open>clientHeight\<close> of each element
  of the live collection of rows; \<open>onloadmore\<close> says whether the callback was supplied.
\<close>

record 'a vlist =
  items :: "'a list option"
  defaultHeight :: rat
  stickToBottom :: bool
  startIndex :: "int option"
  renderDistance :: rat
  onloadmore :: bool
  viewport :: "viewport option"
  visibleRowElements :: "rat list option"
  previousItems :: "'a list"
  heightMap :: "rat option list"
  lockedHeights :: "rat option list"
  heightUnlockTimeouts :: "nat option list"
  renderRange :: index_range
  visibleRange :: index_range
  offset :: offsets
  previousDistance :: rat
  isRecalculating :: bool
  lastScrollDirection :: "direction option"
  lastJumpToIndex :: "int option"
  skipNextScrollEvent :: bool
  nextTimerId :: nat
  pendingTimers :: "(nat \<times> int) list"
  loadMoreRequested :: bool

definition NEAR_BOTTOM_THRESHOLD :: rat where
  "NEAR_BOTTOM_THRESHOLD = 70"

definition LOAD_MORE_THRESHOLD :: rat where
  "LOAD_MORE_THRESHOLD = 300"

subsection \<open>Height lookup and sums\<close>

definition isInitialized :: "'a vlist \<Rightarrow> bool" where
  "isInitialized s = (range_end (renderRange s) \<noteq> 0)"

text \<open>\<^verbatim>\<open>heightMap[index] || defaultHeight\<close>: a hole and a stored 0 are both falsy.\<close>

definition getItemHeight :: "'a vlist \<Rightarrow> int \<Rightarrow> rat" where
  "getItemHeight s index =
     (case arr_get (heightMap s) index of
        None \<Rightarrow> defaultHeight s
      | Some h \<Rightarrow> if h = 0 then defaultHeight s else h)"

text \<open>The \<^verbatim>\<open>for\<close> loop of \<^verbatim>\<open>calculateHeightSum\<close>, with its counter and accumulator.\<close>

function calculateHeightSum_loop :: "'a vlist \<Rightarrow> int \<Rightarrow> int \<Rightarrow> rat \<Rightarrow> rat" where
  "calculateHeightSum_loop s i endIndex sumSoFar =
     (if i < endIndex
      then calculateHeightSum_loop s (i + 1) endIndex (sumSoFar + getItemHeight s i)
      else sumSoFar)"
  by pat_completeness auto
termination
  by (relation "measure (\<lambda>(s, i, endIndex, sumSoFar). nat (endIndex - i))") auto

declare calculateHeightSum_loop.simps [simp del]

definition calculateHeightSum :: "'a vlist \<Rightarrow> int \<Rightarrow> int \<Rightarrow> rat" where
  "calculateHeightSum s startIdx endIndex = calculateHeightSum_loop s startIdx endIndex 0"

definition getDistanceFromBottom :: "'a vlist \<Rightarrow> rat" where
  "getDistanceFromBottom s =
     (case viewport s of
        None \<Rightarrow> 0
      | Some vp \<Rightarrow> scrollHeight vp - scrollTop vp - clientHeight vp)"

definition isNearBottom :: "rat \<Rightarrow> bool" where
  "isNearBottom distance = (distance < NEAR_BOTTOM_THRESHOLD)"

definition shouldTriggerLoadMore :: "'a vlist \<Rightarrow> bool" where
  "shouldTriggerLoadMore s =
     (case viewport s of
        None \<Rightarrow> False
      | Some vp \<Rightarrow>
          if \<not> onloadmore s then False
          else if scrollHeight vp \<le> clientHeight vp then True
          else if stickToBottom s then scrollTop vp < LOAD_MORE_THRESHOLD
          else (let distance = getDistanceFromBottom s
                in 0 \<le> distance \<and> distance < LOAD_MORE_THRESHOLD))"

subsection \<open>Height locks\<close>

text \<open>
  \<^verbatim>\<open>clearTimeout(id)\<close> drops the pending timer with that id; with \<^verbatim>\<open>undefined\<close> it
  does nothing.
\<close>

definition clearTimeout :: "nat option \<Rightarrow> (nat \<times> int) list \<Rightarrow> (nat \<times> int) list" where
  "clearTimeout tid ts =
     (case tid of None \<Rightarrow> ts | Some t \<Rightarrow> filter (\<lambda>p. fst p \<noteq> t) ts)"

text \<open>
  \<^verbatim>\<open>lockRowHeight\<close>. The timer that \<^verbatim>\<open>window.setTimeout\<close> registers is recorded as
  the pair of its fresh id and the row it will unlock.
\<close>

definition lockRowHeight :: "int \<Rightarrow> 'a vlist \<Rightarrow> 'a vlist" where
  "lockRowHeight index s =
     (case arr_get (heightMap s) index of
        None \<Rightarrow> s
      | Some cachedHeight \<Rightarrow>
          if cachedHeight = 0 then s
          else
            s\<lparr>lockedHeights := arr_set (lockedHeights s) index cachedHeight,
              heightUnlockTimeouts := arr_set (heightUnlockTimeouts s) index (nextTimerId s),
              pendingTimers :=
                clearTimeout (arr_get (heightUnlockTimeouts s) index) (pendingTimers s)
                  @ [(nextTimerId s, index)],
              nextTimerId := Suc (nextTimerId s)\<rparr>)"

text \<open>The callback of that timer, run by the host when the timer with id \<open>tid\<close> expires.\<close>

definition heightUnlockExpired :: "nat \<Rightarrow> 'a vlist \<Rightarrow> 'a vlist" where
  "heightUnlockExpired tid s =
     (case map_of (pendingTimers s) tid of
        None \<Rightarrow> s
      | Some index \<Rightarrow>
          s\<lparr>lockedHeights := arr_delete (lockedHeights s) index,
            heightUnlockTimeouts := arr_delete (heightUnlockTimeouts s) index,
            pendingTimers := filter (\<lambda>p. fst p \<noteq> tid) (pendingTimers s)\<rparr>)"

text \<open>
  The \<^verbatim>\<open>style:height\<close> of a rendered row in the template: the locked height when
  \<^verbatim>\<open>lockedHeights[index]\<close> is truthy, otherwise no inline height.
\<close>

definition rowStyleHeight :: "'a vlist \<Rightarrow> int \<Rightarrow> rat option" where
  "rowStyleHeight s index =
     (case arr_get (lockedHeights s) index of
        None \<Rightarrow> None
      | Some h \<Rightarrow> if h = 0 then None else Some h)"

subsection \<open>Offsets\<close>

definition updateOffsets :: "'a vlist \<Rightarrow> 'a vlist" where
  "updateOffsets s =
     s\<lparr>offset :=
         \<lparr>offset_top = calculateHeightSum s 0 (range_start (renderRange s)),
          offset_bottom =
            calculateHeightSum s (range_end (renderRange s)) (int (length (heightMap s)))\<rparr>\<rparr>"

subsection \<open>Range calculation\<close>

text \<open>
  \<^verbatim>\<open>visibleRowElements?.[i - renderRange.start]?.clientHeight\<close>: the live height of
  the row rendered for item \<open>i\<close>, undefined when there is no collection or no such row.
\<close>

definition liveRowHeight :: "'a vlist \<Rightarrow> int \<Rightarrow> rat option" where
  "liveRowHeight s i =
     (case visibleRowElements s of
        None \<Rightarrow> None
      | Some rows \<Rightarrow>
          (let j = i - range_start (renderRange s)
           in if 0 \<le> j \<and> j < int (length rows) then Some (rows ! nat j) else None))"

text \<open>\<^verbatim>\<open>rowHeight || getItemHeight(i)\<close>.\<close>

definition rowHeightOrCached :: "'a vlist \<Rightarrow> int \<Rightarrow> rat" where
  "rowHeightOrCached s i =
     (case liveRowHeight s i of
        None \<Rightarrow> getItemHeight s i
      | Some h \<Rightarrow> if h = 0 then getItemHeight s i else h)"

text \<open>
  The \<^verbatim>\<open>for\<close> loop of \<^verbatim>\<open>calculateVisibleRange\<close> together with the return that
  follows it. \<open>-1\<close> marks a boundary that has not been found yet, as in the source.
\<close>

function calculateVisibleRange_loop ::
  "'a vlist \<Rightarrow> viewport \<Rightarrow> int \<Rightarrow> int \<Rightarrow> int \<Rightarrow> int \<Rightarrow> int \<Rightarrow> rat \<Rightarrow> ranges" where
  "calculateVisibleRange_loop s vp count i rStart vStart vEnd accumulatedHeight =
     (if i < count then
        (let viewBottom = scrollTop vp + clientHeight vp;
             accumulated = accumulatedHeight + rowHeightOrCached s i;
             rStart' = (if rStart = - 1 \<and> accumulated \<ge> scrollTop vp - renderDistance s
                        then i else rStart);
             vStart' = (if vStart = - 1 \<and> accumulated \<ge> scrollTop vp + 1
                        then i else vStart);
             vEnd' = (if vEnd = - 1 \<and> accumulated > viewBottom then i + 1 else vEnd)
         in if accumulated > viewBottom + renderDistance s
            then \<lparr>renderStart = rStart', renderEnd = i + 1,
                  visibleStart = vStart', visibleEnd = vEnd'\<rparr>
            else calculateVisibleRange_loop s vp count (i + 1) rStart' vStart' vEnd' accumulated)
      else
        \<lparr>renderStart = (if rStart = - 1 then count - 1 else rStart),
         renderEnd = count,
         visibleStart = (if vStart = - 1 then count - 1 else vStart),
         visibleEnd = (if vEnd = - 1 then count else vEnd)\<rparr>)"
  by pat_completeness auto
termination
  by (relation "measure (\<lambda>(s, vp, count, i, rest). nat (count - i))") auto

declare calculateVisibleRange_loop.simps [simp del]

definition calculateVisibleRange :: "'a vlist \<Rightarrow> ranges option" where
  "calculateVisibleRange s =
     (case items s of
        None \<Rightarrow> None
      | Some xs \<Rightarrow>
          (let count = int (length xs);
               empty = \<lparr>renderStart = 0, renderEnd = 0, visibleStart = 0, visibleEnd = 0\<rparr>
           in if count = 0 then Some empty
              else (case viewport s of
                      None \<Rightarrow> Some empty
                    | Some vp \<Rightarrow>
                        Some (calculateVisibleRange_loop s vp count 0 (- 1) (- 1) (- 1) 0))))"

subsection \<open>Initialization and jumps\<close>

text \<open>
  \<^verbatim>\<open>initializeAt\<close>, up to its first suspension. A start inside the list enters the
  forward loop and suspends after its first row; a start at or past the end skips it
  and enters the upward loop; with neither loop entered the function reaches the final
  \<^verbatim>\<open>isInitialized\<close> test.
\<close>

definition initializeAt :: "int \<Rightarrow> 'a vlist \<Rightarrow> 'a vlist option" where
  "initializeAt startingAt s =
     (case viewport s of
        None \<Rightarrow> Some s
      | Some vp \<Rightarrow>
          (let s1 = s\<lparr>renderRange := (renderRange s)\<lparr>range_start := startingAt\<rparr>\<rparr>
           in case items s1 of
                None \<Rightarrow> None
              | Some xs \<Rightarrow>
                  if startingAt < int (length xs) then
                    (let s2 = (if arr_get (heightMap s1) startingAt \<noteq> None
                               then lockRowHeight startingAt s1 else s1)
                     in Some (s2\<lparr>renderRange :=
                                   (renderRange s2)\<lparr>range_end := startingAt + 1\<rparr>\<rparr>))
                  else if startingAt - 1 \<ge> 0 then
                    (let i = startingAt - 1;
                         s2 = (if arr_get (heightMap s1) i \<noteq> None
                               then lockRowHeight i s1 else s1)
                     in Some (s2\<lparr>renderRange := (renderRange s2)\<lparr>range_start := i\<rparr>\<rparr>))
                  else if \<not> isInitialized s1 then Some s1
                  else Some (updateOffsets s1)))"

text \<open>
  \<^verbatim>\<open>scrollToBottom\<close>: the host is asked to scroll to
  \<^verbatim>\<open>scrollHeight - clientHeight\<close>, taken here as the new scroll offset.
\<close>

definition scrollToBottom :: "'a vlist \<Rightarrow> 'a vlist" where
  "scrollToBottom s =
     (case viewport s of
        None \<Rightarrow> s
      | Some vp \<Rightarrow>
          s\<lparr>viewport := Some (vp\<lparr>scrollTop := scrollHeight vp - clientHeight vp\<rparr>)\<rparr>)"

text \<open>
  \<^verbatim>\<open>jumpToIndex\<close> has no \<^verbatim>\<open>await\<close> and does not wait for \<^verbatim>\<open>initializeAt\<close>:
  it returns when \<^verbatim>\<open>initializeAt\<close> suspends or returns.
\<close>

definition jumpToIndex :: "int \<Rightarrow> 'a vlist \<Rightarrow> 'a vlist option" where
  "jumpToIndex index s =
     (case items s of
        None \<Rightarrow> Some s
      | Some xs \<Rightarrow>
          if index < 0 \<or> index > int (length xs) - 1 then Some s
          else
            initializeAt index
              (lockRowHeight index
                 (s\<lparr>lastScrollDirection := None,
                    skipNextScrollEvent := True,
                    lastJumpToIndex := Some index\<rparr>)))"

subsection \<open>Recalculation\<close>

text \<open>
  One of the two loops of \<^verbatim>\<open>recalculateRanges\<close> that lock the rows entering the
  render range: \<^verbatim>\<open>for (i = from; i < bound; i++) if (heightMap[i]) lockRowHeight(i)\<close>.
\<close>

function lockEnteringRows :: "int \<Rightarrow> int \<Rightarrow> 'a vlist \<Rightarrow> 'a vlist" where
  "lockEnteringRows i bound s =
     (if i < bound then
        lockEnteringRows (i + 1) bound
          (case arr_get (heightMap s) i of
             None \<Rightarrow> s
           | Some h \<Rightarrow> if h = 0 then s else lockRowHeight i s)
      else s)"
  by pat_completeness auto
termination
  by (relation "measure (\<lambda>(i, bound, s). nat (bound - i))") auto

declare lockEnteringRows.simps [simp del]

text \<open>
  The tail of \<^verbatim>\<open>recalculateRanges\<close>, from the comparison of the visible range on,
  for the pass that did not suspend. \<open>bottomDistance\<close> is the distance read at the start
  of the pass.
\<close>

definition recalculateRanges_settle :: "rat \<Rightarrow> ranges \<Rightarrow> 'a vlist \<Rightarrow> 'a vlist" where
  "recalculateRanges_settle bottomDistance r s =
     (let s1 = (if visibleStart r \<noteq> range_start (visibleRange s)
                   \<or> visibleEnd r \<noteq> range_end (visibleRange s)
                then s\<lparr>visibleRange :=
                         \<lparr>range_start = visibleStart r, range_end = visibleEnd r\<rparr>\<rparr>
                else s);
          s2 = (if stickToBottom s1 \<and> bottomDistance = 0 \<and> getDistanceFromBottom s1 \<noteq> 0
                then scrollToBottom s1 else s1);
          s3 = s2\<lparr>previousDistance := getDistanceFromBottom s2, isRecalculating := False\<rparr>
      in if shouldTriggerLoadMore s3 then s3\<lparr>loadMoreRequested := True\<rparr> else s3)"

text \<open>
  The body of \<^verbatim>\<open>recalculateRanges\<close> that follows the call of the calculator, given
  the calculator's result \<open>r\<close>; \<open>s\<close> is the state at that point (the reentrancy flag
  already set). A changed, non-degenerate range is applied and the pass suspends at
  \<^verbatim>\<open>await tick()\<close>; a degenerate one returns at once.
\<close>

definition recalculateRanges_with :: "ranges \<Rightarrow> 'a vlist \<Rightarrow> 'a vlist option" where
  "recalculateRanges_with r s =
     (let oldStart = range_start (renderRange s);
          oldEnd = range_end (renderRange s);
          bottomDistance = getDistanceFromBottom s;
          start = renderStart r;
          end' = renderEnd r;
          applied =
            lockEnteringRows (max start oldEnd) end'
              (lockEnteringRows start (min end' oldStart)
                 (updateOffsets (s\<lparr>renderRange := \<lparr>range_start = start, range_end = end'\<rparr>\<rparr>)))
      in if start \<noteq> range_start (renderRange s) \<or> end' \<noteq> range_end (renderRange s) then
           (if end' \<le> start then
              (case items s of
                 None \<Rightarrow> None
               | Some xs \<Rightarrow>
                   if length xs > 0 then Some (s\<lparr>isRecalculating := False\<rparr>)
                   else Some applied)
            else Some applied)
         else Some (recalculateRanges_settle bottomDistance r s))"

definition recalculateRanges :: "'a vlist \<Rightarrow> 'a vlist option" where
  "recalculateRanges s =
     (if viewport s = None \<or> visibleRowElements s = None \<or> \<not> isInitialized s
         \<or> isRecalculating s
      then Some s
      else
        (let s1 = s\<lparr>isRecalculating := True\<rparr>
         in case calculateVisibleRange s1 of
              None \<Rightarrow> None
            | Some r \<Rightarrow> recalculateRanges_with r s1))"

subsection \<open>Reconciling a changed item list\<close>

text \<open>The prepend loop of \<^verbatim>\<open>updateHeightMap\<close>; \<open>n\<close> is \<^verbatim>\<open>previousItems.length\<close>.\<close>

function updateHeightMap_shift ::
  "rat option list \<Rightarrow> int \<Rightarrow> int \<Rightarrow> int \<Rightarrow> rat option list \<Rightarrow> rat option list" where
  "updateHeightMap_shift hm countDelta n i shifted =
     (if i < n then
        updateHeightMap_shift hm countDelta n (i + 1)
          (case arr_get hm i of
             None \<Rightarrow> shifted
           | Some h \<Rightarrow> arr_set shifted (i + countDelta) h)
      else shifted)"
  by pat_completeness auto
termination
  by (relation "measure (\<lambda>(hm, countDelta, n, i, shifted). nat (n - i))") auto

declare updateHeightMap_shift.simps [simp del]

definition updateHeightMap :: "int \<Rightarrow> bool \<Rightarrow> bool \<Rightarrow> 'a vlist \<Rightarrow> 'a vlist option" where
  "updateHeightMap countDelta headChanged tailChanged s =
     (if headChanged \<and> tailChanged \<and> length (previousItems s) > 0 then
        (case items s of
           None \<Rightarrow> None
         | Some xs \<Rightarrow>
             Some (s\<lparr>heightMap := new_Array (length xs),
                     renderRange := \<lparr>range_start = 0, range_end = 0\<rparr>\<rparr>))
      else if headChanged \<and> \<not> tailChanged \<and> countDelta > 0 then
        (case items s of
           None \<Rightarrow> None
         | Some xs \<Rightarrow>
             Some (s\<lparr>heightMap :=
                       updateHeightMap_shift (heightMap s) countDelta
                         (int (length (previousItems s))) 0 (new_Array (length xs))\<rparr>))
      else
        (case items s of
           None \<Rightarrow> None
         | Some xs \<Rightarrow> Some (s\<lparr>heightMap := arr_resize (heightMap s) (length xs)\<rparr>)))"

text \<open>
  \<^verbatim>\<open>handleItemsAdded\<close>, up to its first suspension: the stick-to-bottom prepend
  branch suspends after shifting the render range, the stick-to-bottom append branch
  suspends before changing anything, every other change only refreshes the offsets.
\<close>

definition handleItemsAdded :: "int \<Rightarrow> bool \<Rightarrow> bool \<Rightarrow> 'a vlist \<Rightarrow> 'a vlist option" where
  "handleItemsAdded countDelta headChanged tailChanged s =
     (if stickToBottom s \<and> headChanged \<and> \<not> tailChanged \<and> viewport s \<noteq> None then
        (case items s of
           None \<Rightarrow> None
         | Some xs \<Rightarrow>
             Some (updateOffsets
                     (s\<lparr>renderRange :=
                          \<lparr>range_start = range_start (renderRange s) + countDelta,
                           range_end = min (range_end (renderRange s) + countDelta)
                                           (int (length xs))\<rparr>\<rparr>)))
      else if stickToBottom s \<and> tailChanged \<and> \<not> headChanged then Some s
      else Some (updateOffsets s))"

text \<open>\<^verbatim>\<open>handleItemsRemovedOrReplaced\<close> suspends at once.\<close>

definition handleItemsRemovedOrReplaced :: "'a vlist \<Rightarrow> 'a vlist option" where
  "handleItemsRemovedOrReplaced s = Some s"

text \<open>
  \<^verbatim>\<open>handleItemsChanged\<close>, up to its first suspension. \<^verbatim>\<open>startIndex || 0\<close> is the
  start index, with 0 for an absent one.
\<close>

definition handleItemsChanged :: "int \<Rightarrow> bool \<Rightarrow> bool \<Rightarrow> 'a vlist \<Rightarrow> 'a vlist option" where
  "handleItemsChanged countDelta headChanged tailChanged s =
     (case updateHeightMap countDelta headChanged tailChanged s of
        None \<Rightarrow> None
      | Some s1 \<Rightarrow>
          (case items s1 of
             None \<Rightarrow> None
           | Some xs \<Rightarrow>
               if \<not> isInitialized s1 \<and> length xs > 0 then
                 initializeAt
                   (if stickToBottom s1 then int (length xs) - 1
                    else (case startIndex s1 of None \<Rightarrow> 0 | Some k \<Rightarrow> k))
                   s1
               else if countDelta > 0 then
                 handleItemsAdded countDelta headChanged tailChanged s1
               else handleItemsRemovedOrReplaced s1))"

section \<open>Statements and example states\<close>



text \<open>
  The height lookup as the specification words it: the locked height when a lock is
  present, else the measured height when one is stored, else the default. It is compared
  with \<open>getItemHeight\<close> below.
\<close>

definition getItemHeight_spec :: "'a vlist \<Rightarrow> int \<Rightarrow> rat" where
  "getItemHeight_spec s index =
     (case arr_get (lockedHeights s) index of
        Some locked \<Rightarrow> locked
      | None \<Rightarrow>
          (case arr_get (heightMap s) index of
             Some measured \<Rightarrow> measured
           | None \<Rightarrow> defaultHeight s))"

text \<open>
  The component right after its script has run, for a given item list and default
  height: nothing bound, nothing measured, every optional prop at its default.
\<close>

definition initial_vlist :: "'a list \<Rightarrow> rat \<Rightarrow> 'a vlist" where
  "initial_vlist xs dh =
     \<lparr>items = Some xs, defaultHeight = dh, stickToBottom = False, startIndex = None,
      renderDistance = 0, onloadmore = False, viewport = None, visibleRowElements = None,
      previousItems = [], heightMap = [], lockedHeights = [], heightUnlockTimeouts = [],
      renderRange = \<lparr>range_start = 0, range_end = 0\<rparr>,
      visibleRange = \<lparr>range_start = 0, range_end = 0\<rparr>,
      offset = \<lparr>offset_top = 0, offset_bottom = 0\<rparr>,
      previousDistance = 0, isRecalculating = False, lastScrollDirection = None,
      lastJumpToIndex = None, skipNextScrollEvent = False,
      nextTimerId = 1, pendingTimers = [], loadMoreRequested = False\<rparr>"

text \<open>
  A mounted list of four items, rows 1 and 2 rendered. Item 0 was measured at 40px,
  item 1 at 0px, item 2 never, item 3 at 60px; a lock taken for item 3 when its height
  was still 45px is pending.
\<close>

definition feed :: "nat vlist" where
  "feed = (initial_vlist [10, 11, 12, 13] 50)
     \<lparr>onloadmore := True,
      viewport := Some \<lparr>scrollTop = 60, clientHeight = 100, scrollHeight = 200\<rparr>,
      visibleRowElements := Some [50, 50],
      previousItems := [10, 11, 12, 13],
      heightMap := [Some 40, Some 0, None, Some 60],
      lockedHeights := [None, None, None, Some 45],
      heightUnlockTimeouts := [None, None, None, Some 1],
      renderRange := \<lparr>range_start = 1, range_end = 3\<rparr>,
      visibleRange := \<lparr>range_start = 1, range_end = 3\<rparr>,
      offset := \<lparr>offset_top = 40, offset_bottom = 60\<rparr>,
      lastScrollDirection := Some Down,
      nextTimerId := 2, pendingTimers := [(1, 3)]\<rparr>"

text \<open>The same list after its items were replaced, after two items were prepended, and
  after the viewport went away.\<close>

definition replaced_feed :: "nat vlist" where
  "replaced_feed = feed\<lparr>items := Some [7, 8, 9, 6, 5]\<rparr>"

definition prepended_feed :: "nat vlist" where
  "prepended_feed = feed\<lparr>items := Some [8, 9, 10, 11, 12, 13]\<rparr>"

definition detached_feed :: "nat vlist" where
  "detached_feed = feed\<lparr>viewport := None\<rparr>"



section \<open>Sparse arrays\<close>

lemma arr_get_new_Array [simp]: "arr_get (new_Array n) j = None"
  by (simp add: arr_get_def new_Array_def nat_less_iff)

lemma length_new_Array [simp]: "length (new_Array n) = n"
  by (simp add: new_Array_def)

lemma length_arr_set_inside:
  "0 \<le> i \<Longrightarrow> i < int (length a) \<Longrightarrow> length (arr_set a i v) = length a"
  by (simp add: arr_set_def)

lemma arr_get_arr_set:
  assumes "0 \<le> i"
  shows "arr_get (arr_set a i v) j = (if j = i then Some v else arr_get a j)"
proof (cases "i < int (length a)")
  case True
  with assms show ?thesis
    by (auto simp: arr_get_def arr_set_def nat_eq_iff)
next
  case False
  with assms have len: "length a \<le> nat i" by linarith
  show ?thesis
  proof (cases "0 \<le> j \<and> j \<le> i")
    case False
    with assms len \<open>\<not> i < int (length a)\<close> show ?thesis
      by (auto simp: arr_get_def arr_set_def)
  next
    case True
    with assms len \<open>\<not> i < int (length a)\<close> show ?thesis
      by (auto simp: arr_get_def arr_set_def nth_append nat_eq_iff nat_less_iff)
  qed
qed

lemma arr_set_idem: "arr_set (arr_set a i v) i v = arr_set a i v"
  by (auto simp: arr_set_def list_update_append nat_less_iff)

section \<open>Height sums and offsets\<close>

lemma calculateHeightSum_loop_sum:
  "calculateHeightSum_loop s i e a = a + (\<Sum>j = i..<e. getItemHeight s j)"
proof (induction s i e a rule: calculateHeightSum_loop.induct)
  case (1 s i e a)
  show ?case
  proof (cases "i < e")
    case True
    have split: "{i..<e} = insert i {i + 1..<e}" using True by auto
    have "(\<Sum>j = i..<e. getItemHeight s j) = getItemHeight s i + (\<Sum>j = i + 1..<e. getItemHeight s j)"
      by (subst split) simp
    with True 1 show ?thesis
      by (subst calculateHeightSum_loop.simps) simp
  next
    case False
    then show ?thesis by (subst calculateHeightSum_loop.simps) simp
  qed
qed

lemma calculateHeightSum_sum:
  "calculateHeightSum s a b = (\<Sum>j = a..<b. getItemHeight s j)"
  by (simp add: calculateHeightSum_def calculateHeightSum_loop_sum)

lemma calculateHeightSum_split:
  "a \<le> m \<Longrightarrow> m \<le> b \<Longrightarrow>
   calculateHeightSum s a m + calculateHeightSum s m b = calculateHeightSum s a b"
proof -
  assume am: "a \<le> m" and mb: "m \<le> b"
  have u: "{a..<b} = {a..<m} \<union> {m..<b}" using am mb by auto
  have d: "{a..<m} \<inter> {m..<b} = {}" by auto
  show ?thesis
    unfolding calculateHeightSum_sum u
    by (rule sum.union_disjoint[symmetric]) (simp_all add: d)
qed

lemma getItemHeight_updateOffsets [simp]:
  "getItemHeight (updateOffsets s) i = getItemHeight s i"
  by (simp add: getItemHeight_def updateOffsets_def split: option.splits)

lemma calculateHeightSum_updateOffsets [simp]:
  "calculateHeightSum (updateOffsets s) a b = calculateHeightSum s a b"
  by (simp add: calculateHeightSum_sum)

text \<open>
  Claim C2. After \<open>updateOffsets\<close>, with the height map as long as the item list and
  a render range with \<open>0 \<le> start \<le> end \<le> length\<close>, the top offset, the heights of the render
  range and the bottom offset add up to the heights of all items; the top offset is the
  sum of the heights below the range start and the bottom offset the sum of the heights
  from the range end on.
\<close>

theorem updateOffsets_partition:
  assumes "items s = Some xs"
    and "length (heightMap s) = length xs"
    and "0 \<le> range_start (renderRange s)"
    and "range_start (renderRange s) \<le> range_end (renderRange s)"
    and "range_end (renderRange s) \<le> int (length xs)"
  shows "offset_top (offset (updateOffsets s))
           + calculateHeightSum (updateOffsets s) (range_start (renderRange (updateOffsets s)))
               (range_end (renderRange (updateOffsets s)))
           + offset_bottom (offset (updateOffsets s))
         = calculateHeightSum (updateOffsets s) 0 (int (length xs))
       \<and> offset_top (offset (updateOffsets s))
         = (\<Sum>i = 0..<range_start (renderRange s). getItemHeight s i)
       \<and> offset_bottom (offset (updateOffsets s))
         = (\<Sum>i = range_end (renderRange s)..<int (length xs). getItemHeight s i)"
proof -
  let ?a = "range_start (renderRange s)" and ?b = "range_end (renderRange s)"
  have rr: "renderRange (updateOffsets s) = renderRange s"
    by (simp add: updateOffsets_def)
  have top: "offset_top (offset (updateOffsets s)) = calculateHeightSum s 0 ?a"
    by (simp add: updateOffsets_def)
  have bot: "offset_bottom (offset (updateOffsets s)) = calculateHeightSum s ?b (int (length xs))"
    using assms(2) by (simp add: updateOffsets_def)
  have "calculateHeightSum s 0 ?a + calculateHeightSum s ?a ?b + calculateHeightSum s ?b (int (length xs))
        = calculateHeightSum s 0 (int (length xs))"
    using assms(3-5) calculateHeightSum_split[of 0 ?a ?b s]
      calculateHeightSum_split[of 0 ?b "int (length xs)" s] by simp
  then show ?thesis
    using top bot rr by (simp add: calculateHeightSum_sum)
qed

theorem updateOffsets_partition_witness:
  "items feed = Some [10, 11, 12, 13] \<and> length (heightMap feed) = 4
   \<and> renderRange feed = \<lparr>range_start = 1, range_end = 3\<rparr>
   \<and> offset_top (offset (updateOffsets feed))
       + calculateHeightSum (updateOffsets feed) 1 3
       + offset_bottom (offset (updateOffsets feed))
     = calculateHeightSum (updateOffsets feed) 0 4"
proof -
  have f: "items feed = Some [10, 11, 12, 13]" "length (heightMap feed) = 4"
    "renderRange feed = \<lparr>range_start = 1, range_end = 3\<rparr>"
    by (simp_all add: feed_def initial_vlist_def)
  have r: "renderRange (updateOffsets feed) = renderRange feed"
    by (simp add: updateOffsets_def)
  show ?thesis
    using f r updateOffsets_partition[of feed "[10, 11, 12, 13]"] by simp
qed

text \<open>The offsets and sums computed for the example.\<close>

lemma updateOffsets_feed:
  "offset (updateOffsets feed) = \<lparr>offset_top = 40, offset_bottom = 60\<rparr>
   \<and> calculateHeightSum feed 1 3 = 100 \<and> calculateHeightSum feed 0 4 = 200"
  by (simp add: updateOffsets_def calculateHeightSum_def calculateHeightSum_loop.simps
      getItemHeight_def arr_get_def feed_def initial_vlist_def)

section \<open>Range calculation\<close>







text \<open>The boundaries computed for the example.\<close>

lemma calculateVisibleRange_feed:
  "calculateVisibleRange feed
   = Some \<lparr>renderStart = 1, renderEnd = 4, visibleStart = 1, visibleEnd = 4\<rparr>"
  by (simp add: calculateVisibleRange_def calculateVisibleRange_loop.simps rowHeightOrCached_def
      liveRowHeight_def getItemHeight_def arr_get_def feed_def initial_vlist_def Let_def)

section \<open>Height lookup\<close>

text \<open>
  Claim C6, amended. \<open>getItemHeight\<close> returns the measured height when one is stored
  and is not 0, and the default height otherwise; it does not depend on the locked
  heights or their timers. The row template sets a present, non-zero locked height as the
  inline height of the rendered row.
\<close>

theorem getItemHeight_ignores_locks:
  "(\<forall>h. arr_get (heightMap s) i = Some h \<and> h \<noteq> 0 \<longrightarrow> getItemHeight s i = h)
   \<and> (arr_get (heightMap s) i = None \<or> arr_get (heightMap s) i = Some 0
        \<longrightarrow> getItemHeight s i = defaultHeight s)
   \<and> getItemHeight (s\<lparr>lockedHeights := locks, heightUnlockTimeouts := timeouts,
                       pendingTimers := timers\<rparr>) i = getItemHeight s i
   \<and> (\<forall>h. arr_get (lockedHeights s) i = Some h \<and> h \<noteq> 0 \<longrightarrow> rowStyleHeight s i = Some h)"
  by (auto simp: getItemHeight_def rowStyleHeight_def split: option.splits)

theorem getItemHeight_ignores_locks_witness:
  "arr_get (heightMap feed) 3 = Some 60 \<and> arr_get (lockedHeights feed) 3 = Some 45
   \<and> getItemHeight feed 3 = 60 \<and> rowStyleHeight feed 3 = Some 45
   \<and> arr_get (heightMap feed) 2 = None \<and> getItemHeight feed 2 = defaultHeight feed"
proof -
  have hm: "arr_get (heightMap feed) 3 = Some 60" "arr_get (lockedHeights feed) 3 = Some 45"
    "arr_get (heightMap feed) 2 = None"
    by (simp_all add: feed_def initial_vlist_def arr_get_def)
  show ?thesis
    using hm getItemHeight_ignores_locks[of feed 3] getItemHeight_ignores_locks[of feed 2]
    by simp
qed

text \<open>
  The claim as first stated had the lookup return the locked height. In the example the
  lock of row 3 holds 45 and the lookup returns the measured 60.
\<close>

theorem getItemHeight_lock_counterexample:
  "arr_get (lockedHeights feed) 3 = Some 45 \<and> getItemHeight_spec feed 3 = 45
   \<and> getItemHeight feed 3 = 60"
  by (simp add: feed_def initial_vlist_def arr_get_def getItemHeight_def getItemHeight_spec_def)

text \<open>
  Claim C9. An index whose stored measured height is exactly 0 is looked up as the
  default height, and contributes the default height to every height sum over a range
  that contains it, and so to the offsets.
\<close>

theorem getItemHeight_zero_is_default:
  assumes "arr_get (heightMap s) i = Some 0"
  shows "getItemHeight s i = defaultHeight s
       \<and> (\<forall>a b. a \<le> i \<and> i < b \<longrightarrow>
             calculateHeightSum s a b
             = calculateHeightSum s a i + defaultHeight s + calculateHeightSum s (i + 1) b)
       \<and> (i < range_start (renderRange s) \<longrightarrow>
             offset_top (offset (updateOffsets s))
             = calculateHeightSum s 0 i + defaultHeight s
               + calculateHeightSum s (i + 1) (range_start (renderRange s)))
       \<and> (range_end (renderRange s) \<le> i \<longrightarrow>
             offset_bottom (offset (updateOffsets s))
             = calculateHeightSum s (range_end (renderRange s)) i + defaultHeight s
               + calculateHeightSum s (i + 1) (int (length (heightMap s))))"
proof -
  have h: "getItemHeight s i = defaultHeight s"
    using assms by (simp add: getItemHeight_def)
  have inside: "0 \<le> i" "i < int (length (heightMap s))"
    using assms by (auto simp: arr_get_def split: if_splits)
  have "{i..<i + 1} = {i}" by auto
  then have one: "calculateHeightSum s i (i + 1) = defaultHeight s"
    using h by (simp add: calculateHeightSum_sum)
  have sums: "calculateHeightSum s a b
      = calculateHeightSum s a i + defaultHeight s + calculateHeightSum s (i + 1) b"
    if "a \<le> i" "i < b" for a b
    using that calculateHeightSum_split[of a i b s] calculateHeightSum_split[of i "i + 1" b s] one
    by simp
  show ?thesis
    using h sums inside by (simp add: updateOffsets_def)
qed

theorem getItemHeight_zero_is_default_witness:
  "arr_get (heightMap feed) 1 = Some 0 \<and> getItemHeight feed 1 = 50
   \<and> calculateHeightSum feed 0 4 = calculateHeightSum feed 0 1 + 50 + calculateHeightSum feed 2 4"
proof -
  have z: "arr_get (heightMap feed) 1 = Some 0"
    by (simp add: feed_def initial_vlist_def arr_get_def)
  have d: "defaultHeight feed = 50"
    by (simp add: feed_def initial_vlist_def)
  show ?thesis
    using z d getItemHeight_zero_is_default[OF z] by simp
qed

section \<open>Height locks\<close>

text \<open>
  Claim C10. For an index with no cached measured height (unset or 0),
  \<open>lockRowHeight\<close> changes nothing: no locked height, no new timer, no cancelled timer.
\<close>

theorem lockRowHeight_without_cached_height:
  assumes "arr_get (heightMap s) i = None \<or> arr_get (heightMap s) i = Some 0"
  shows "lockRowHeight i s = s"
  using assms by (auto simp: lockRowHeight_def)

theorem lockRowHeight_without_cached_height_witness:
  "arr_get (heightMap feed) 1 = Some 0 \<and> lockRowHeight 1 feed = feed
   \<and> arr_get (heightMap feed) 2 = None \<and> lockRowHeight 2 feed = feed"
proof -
  have z: "arr_get (heightMap feed) 1 = Some 0" and n: "arr_get (heightMap feed) 2 = None"
    by (simp_all add: feed_def initial_vlist_def arr_get_def)
  show ?thesis
    using z n lockRowHeight_without_cached_height[of feed 1]
      lockRowHeight_without_cached_height[of feed 2] by simp
qed

text \<open>With a cached height that is not 0 the row is locked and its timer registered.\<close>

lemma lockRowHeight_with_cached_height:
  assumes "arr_get (heightMap s) i = Some h" and "h \<noteq> 0"
  shows "arr_get (lockedHeights (lockRowHeight i s)) i = Some h
       \<and> arr_get (heightUnlockTimeouts (lockRowHeight i s)) i = Some (nextTimerId s)
       \<and> (nextTimerId s, i) \<in> set (pendingTimers (lockRowHeight i s))"
proof -
  have "0 \<le> i" using assms(1) by (auto simp: arr_get_def split: if_splits)
  then show ?thesis
    using assms by (simp add: lockRowHeight_def arr_get_arr_set)
qed

section \<open>Load-more predicate\<close>

text \<open>
  Claim C8. \<open>shouldTriggerLoadMore\<close> is true exactly when the callback and the viewport
  exist and either the content is not taller than the viewport, or stick-to-bottom is on
  and the scroll offset is below 300, or stick-to-bottom is off and the distance from the
  bottom is at least 0 and below 300.
\<close>

theorem shouldTriggerLoadMore_iff:
  "shouldTriggerLoadMore s \<longleftrightarrow>
     onloadmore s \<and>
     (\<exists>vp. viewport s = Some vp \<and>
        (scrollHeight vp \<le> clientHeight vp
         \<or> stickToBottom s \<and> scrollTop vp < 300
         \<or> \<not> stickToBottom s \<and> 0 \<le> getDistanceFromBottom s \<and> getDistanceFromBottom s < 300))"
  by (auto simp: shouldTriggerLoadMore_def LOAD_MORE_THRESHOLD_def Let_def split: option.splits)

theorem shouldTriggerLoadMore_iff_witness:
  "shouldTriggerLoadMore feed \<and> getDistanceFromBottom feed = 40
   \<and> \<not> shouldTriggerLoadMore (feed\<lparr>onloadmore := False\<rparr>)
   \<and> \<not> shouldTriggerLoadMore (feed\<lparr>viewport := None\<rparr>)
   \<and> \<not> shouldTriggerLoadMore
         (feed\<lparr>viewport := Some \<lparr>scrollTop = 60, clientHeight = 100, scrollHeight = 500\<rparr>\<rparr>)"
  using shouldTriggerLoadMore_iff[of feed]
    shouldTriggerLoadMore_iff[of "feed\<lparr>onloadmore := False\<rparr>"]
    shouldTriggerLoadMore_iff[of "feed\<lparr>viewport := None\<rparr>"]
    shouldTriggerLoadMore_iff[of "feed\<lparr>viewport := Some \<lparr>scrollTop = 60, clientHeight = 100, scrollHeight = 500\<rparr>\<rparr>"]
  by (simp add: feed_def initial_vlist_def getDistanceFromBottom_def)

section \<open>Reconciling a changed item list\<close>

lemma updateHeightMap_shift_spec:
  assumes "0 \<le> i" and "0 < countDelta" and "n + countDelta \<le> int (length shifted)"
  shows "length (updateHeightMap_shift hm countDelta n i shifted) = length shifted
       \<and> (\<forall>j. arr_get (updateHeightMap_shift hm countDelta n i shifted) j =
                (if i + countDelta \<le> j \<and> j < n + countDelta \<and> arr_get hm (j - countDelta) \<noteq> None
                 then arr_get hm (j - countDelta) else arr_get shifted j))"
  using assms
proof (induction hm countDelta n i shifted rule: updateHeightMap_shift.induct)
  case (1 hm countDelta n i shifted)
  show ?case
  proof (cases "i < n")
    case False
    then show ?thesis by (subst (1 2) updateHeightMap_shift.simps) auto
  next
    case True
    define next_shifted where
      "next_shifted = (case arr_get hm i of None \<Rightarrow> shifted | Some h \<Rightarrow> arr_set shifted (i + countDelta) h)"
    have step: "updateHeightMap_shift hm countDelta n i shifted =
                updateHeightMap_shift hm countDelta n (i + 1) next_shifted"
      using True by (subst updateHeightMap_shift.simps) (simp add: next_shifted_def)
    have len: "length next_shifted = length shifted"
      using True "1.prems" by (simp add: next_shifted_def length_arr_set_inside split: option.splits)
    have get: "arr_get next_shifted j =
               (if j = i + countDelta \<and> arr_get hm i \<noteq> None then arr_get hm i else arr_get shifted j)" for j
      using "1.prems" by (auto simp: next_shifted_def arr_get_arr_set split: option.splits)
    have IH: "length (updateHeightMap_shift hm countDelta n (i + 1) next_shifted) = length next_shifted
       \<and> (\<forall>j. arr_get (updateHeightMap_shift hm countDelta n (i + 1) next_shifted) j =
                (if i + 1 + countDelta \<le> j \<and> j < n + countDelta \<and> arr_get hm (j - countDelta) \<noteq> None
                 then arr_get hm (j - countDelta) else arr_get next_shifted j))"
      using "1.prems" len unfolding next_shifted_def by (intro "1.IH"[OF True]) auto
    show ?thesis
    proof (intro conjI allI)
      show "length (updateHeightMap_shift hm countDelta n i shifted) = length shifted"
        using IH len step by simp
    next
      fix j
      show "arr_get (updateHeightMap_shift hm countDelta n i shifted) j =
            (if i + countDelta \<le> j \<and> j < n + countDelta \<and> arr_get hm (j - countDelta) \<noteq> None
             then arr_get hm (j - countDelta) else arr_get shifted j)"
      proof (cases "j = i + countDelta")
        case True
        then have "j - countDelta = i" by simp
        with True \<open>i < n\<close> IH get[of j] step show ?thesis by auto
      next
        case False
        with IH get[of j] step show ?thesis by auto
      qed
    qed
  qed
qed

text \<open>
  Claim C3. For a height map with no entry at or past the previous item count and
  every \<open>k > 0\<close>, a change classified as a prepend of \<open>k\<close> items (head changed, tail
  unchanged, count delta \<open>k\<close>) yields a height map of the new item count in which the
  entry of every index \<open>i\<close> is found unchanged at \<open>i + k\<close> and nothing else is set; no
  other part of the state changes.
\<close>

theorem updateHeightMap_prepend_shifts:
  assumes "items s = Some xs"
    and "0 < k"
    and "int (length xs) - int (length (previousItems s)) = k"
    and "length (heightMap s) \<le> length (previousItems s)"
  shows "\<exists>s'. updateHeightMap k True False s = Some s'
           \<and> s' = s\<lparr>heightMap := heightMap s'\<rparr>
           \<and> length (heightMap s') = length xs
           \<and> (\<forall>i. arr_get (heightMap s') (i + k) = arr_get (heightMap s) i)
           \<and> (\<forall>j. j < k \<longrightarrow> arr_get (heightMap s') j = None)"
proof -
  let ?n = "int (length (previousItems s))"
  let ?hm = "updateHeightMap_shift (heightMap s) k ?n 0 (new_Array (length xs))"
  have upd: "updateHeightMap k True False s = Some (s\<lparr>heightMap := ?hm\<rparr>)"
    using assms(1,2) by (simp add: updateHeightMap_def)
  have spec: "length ?hm = length (new_Array (length xs) :: rat option list)
       \<and> (\<forall>j. arr_get ?hm j =
                (if 0 + k \<le> j \<and> j < ?n + k \<and> arr_get (heightMap s) (j - k) \<noteq> None
                 then arr_get (heightMap s) (j - k) else arr_get (new_Array (length xs)) j))"
    using assms(2,3) by (intro updateHeightMap_shift_spec) simp_all
  have outside: "arr_get (heightMap s) i = None" if "i < 0 \<or> ?n \<le> i" for i
    using that assms(4) by (auto simp: arr_get_def)
  have shifted: "arr_get ?hm (i + k) = arr_get (heightMap s) i" for i
  proof (cases "0 \<le> i \<and> i < ?n")
    case True
    with spec show ?thesis by auto
  next
    case False
    then have "arr_get (heightMap s) i = None" using outside by auto
    with spec show ?thesis by auto
  qed
  have below: "arr_get ?hm j = None" if "j < k" for j
    using that spec by auto
  show ?thesis
    using upd spec shifted below by simp
qed

theorem updateHeightMap_prepend_shifts_witness:
  "items prepended_feed = Some [8, 9, 10, 11, 12, 13]
   \<and> int (length [8, 9, 10, 11, 12, 13 :: nat]) - int (length (previousItems prepended_feed)) = 2
   \<and> length (heightMap prepended_feed) \<le> length (previousItems prepended_feed)
   \<and> (\<exists>s'. updateHeightMap 2 True False prepended_feed = Some s'
         \<and> length (heightMap s') = 6
         \<and> arr_get (heightMap s') 0 = None \<and> arr_get (heightMap s') 1 = None
         \<and> arr_get (heightMap s') 2 = Some 40 \<and> arr_get (heightMap s') 5 = Some 60)"
proof -
  have f: "items prepended_feed = Some [8, 9, 10, 11, 12, 13]"
    "int (length [8, 9, 10, 11, 12, 13 :: nat]) - int (length (previousItems prepended_feed)) = 2"
    "length (heightMap prepended_feed) \<le> length (previousItems prepended_feed)"
    by (simp_all add: prepended_feed_def feed_def initial_vlist_def)
  have h: "arr_get (heightMap prepended_feed) 0 = Some 40"
    "arr_get (heightMap prepended_feed) 3 = Some 60"
    by (simp_all add: prepended_feed_def feed_def initial_vlist_def arr_get_def)
  from updateHeightMap_prepend_shifts[OF f(1) _ f(2) f(3)]
  obtain s' where s': "updateHeightMap 2 True False prepended_feed = Some s'"
    "length (heightMap s') = length [8, 9, 10, 11, 12, 13 :: nat]"
    "\<forall>i. arr_get (heightMap s') (i + 2) = arr_get (heightMap prepended_feed) i"
    "\<forall>j. j < 2 \<longrightarrow> arr_get (heightMap s') j = None"
    by auto
  from s'(3) have "arr_get (heightMap s') (0 + 2) = arr_get (heightMap prepended_feed) 0"
    "arr_get (heightMap s') (3 + 2) = arr_get (heightMap prepended_feed) 3" by blast+
  with s' h f show ?thesis by simp
qed

text \<open>The shifted height map computed for the example.\<close>

lemma updateHeightMap_prepended_feed:
  "updateHeightMap 2 True False prepended_feed
   = Some (prepended_feed\<lparr>heightMap := [None, None, Some 40, Some 0, None, Some 60]\<rparr>)"
  by (simp add: updateHeightMap_def updateHeightMap_shift.simps arr_get_def arr_set_def
      new_Array_def prepended_feed_def feed_def initial_vlist_def)

text \<open>
  Claim C4, amended. With a non-empty previous item list, a change classified as a full
  replacement (head and tail both changed) resets the height map to the new length with
  every entry unset and the render range to \<open>{start: 0, end: 0}\<close>, so that
  \<open>isInitialized\<close> is false and \<open>handleItemsChanged\<close> goes on to \<open>initializeAt\<close> for a
  non-empty list. The locked heights and their timers are left as they are.
\<close>

theorem updateHeightMap_full_replacement:
  assumes "items s = Some xs" and "previousItems s \<noteq> []"
  shows "\<exists>s'. updateHeightMap countDelta True True s = Some s'
           \<and> length (heightMap s') = length xs
           \<and> (\<forall>i. arr_get (heightMap s') i = None)
           \<and> renderRange s' = \<lparr>range_start = 0, range_end = 0\<rparr>
           \<and> \<not> isInitialized s'
           \<and> lockedHeights s' = lockedHeights s
           \<and> heightUnlockTimeouts s' = heightUnlockTimeouts s
           \<and> pendingTimers s' = pendingTimers s
           \<and> (xs \<noteq> [] \<longrightarrow>
                handleItemsChanged countDelta True True s
                = initializeAt (if stickToBottom s then int (length xs) - 1
                                else (case startIndex s of None \<Rightarrow> 0 | Some k \<Rightarrow> k)) s')"
proof -
  let ?s' = "s\<lparr>heightMap := new_Array (length xs),
                renderRange := \<lparr>range_start = 0, range_end = 0\<rparr>\<rparr>"
  have upd: "updateHeightMap countDelta True True s = Some ?s'"
    using assms by (simp add: updateHeightMap_def)
  have ninit: "\<not> isInitialized ?s'" by (simp add: isInitialized_def)
  have "handleItemsChanged countDelta True True s
        = initializeAt (if stickToBottom s then int (length xs) - 1
                        else (case startIndex s of None \<Rightarrow> 0 | Some k \<Rightarrow> k)) ?s'"
    if "xs \<noteq> []"
    using that assms(1) upd ninit by (simp add: handleItemsChanged_def)
  with upd ninit show ?thesis by simp
qed

theorem updateHeightMap_full_replacement_witness:
  "items replaced_feed = Some [7, 8, 9, 6, 5] \<and> previousItems replaced_feed \<noteq> []
   \<and> (\<exists>s'. updateHeightMap 1 True True replaced_feed = Some s'
         \<and> length (heightMap s') = 5 \<and> \<not> isInitialized s'
         \<and> lockedHeights s' = [None, None, None, Some 45]
         \<and> handleItemsChanged 1 True True replaced_feed = initializeAt 0 s')"
proof -
  have i: "items replaced_feed = Some [7, 8, 9, 6, 5]" and p: "previousItems replaced_feed \<noteq> []"
    by (simp_all add: replaced_feed_def feed_def initial_vlist_def)
  have l: "lockedHeights replaced_feed = [None, None, None, Some 45]"
    "\<not> stickToBottom replaced_feed" "startIndex replaced_feed = None"
    by (simp_all add: replaced_feed_def feed_def initial_vlist_def)
  show ?thesis
    using i p l updateHeightMap_full_replacement[OF i p, of 1] by auto
qed

text \<open>
  The claim as first stated also had the locked heights discarded. They are not: the
  lock pending for row 3 of the example survives the replacement.
\<close>

theorem updateHeightMap_full_replacement_counterexample:
  "previousItems replaced_feed = [10, 11, 12, 13]
   \<and> items replaced_feed = Some [7, 8, 9, 6, 5]
   \<and> map_option lockedHeights (updateHeightMap 1 True True replaced_feed)
       = Some [None, None, None, Some 45]"
  by (simp add: updateHeightMap_def replaced_feed_def feed_def initial_vlist_def)

section \<open>Recalculation\<close>

lemma renderRange_recalculateRanges_settle [simp]:
  "renderRange (recalculateRanges_settle d r s) = renderRange s"
  by (simp add: recalculateRanges_settle_def Let_def scrollToBottom_def split: option.splits)

lemma liveRowHeight_isRecalculating [simp]:
  "liveRowHeight (s\<lparr>isRecalculating := b\<rparr>) i = liveRowHeight s i"
  by (simp add: liveRowHeight_def cong: option.case_cong)

lemma getItemHeight_isRecalculating [simp]:
  "getItemHeight (s\<lparr>isRecalculating := b\<rparr>) i = getItemHeight s i"
  by (simp add: getItemHeight_def split: option.splits)

lemma rowHeightOrCached_isRecalculating [simp]:
  "rowHeightOrCached (s\<lparr>isRecalculating := b\<rparr>) i = rowHeightOrCached s i"
  by (simp add: rowHeightOrCached_def split: option.splits)

lemma calculateVisibleRange_loop_isRecalculating:
  "calculateVisibleRange_loop (s\<lparr>isRecalculating := b\<rparr>) vp count i rs vs ve a
   = calculateVisibleRange_loop s vp count i rs vs ve a"
proof (induction s vp count i rs vs ve a rule: calculateVisibleRange_loop.induct)
  case (1 s vp count i rs vs ve a)
  show ?case
  proof (cases "i < count")
    case False
    then show ?thesis by (subst (1 2) calculateVisibleRange_loop.simps) simp
  next
    case True
    show ?thesis
      apply (subst (1 2) calculateVisibleRange_loop.simps)
      using True "1.IH"[OF True refl refl refl refl refl]
      apply (simp add: Let_def)
      done
  qed
qed

lemma calculateVisibleRange_isRecalculating [simp]:
  "calculateVisibleRange (s\<lparr>isRecalculating := b\<rparr>) = calculateVisibleRange s"
  by (simp add: calculateVisibleRange_def calculateVisibleRange_loop_isRecalculating Let_def
      split: option.splits)

lemma recalculateRanges_with_degenerate:
  assumes "items s = Some xs" and "xs \<noteq> []" and "renderEnd r \<le> renderStart r"
  shows "\<exists>s'. recalculateRanges_with r s = Some s' \<and> renderRange s' = renderRange s"
  using assms by (simp add: recalculateRanges_with_def Let_def)

text \<open>
  Claim C5. With a non-empty item list, a result of the range calculation with
  \<open>renderEnd \<le> renderStart\<close> is never applied: the pass leaves the stored render range as
  it was. This holds for the body of \<open>recalculateRanges\<close> whatever result it is handed,
  and for \<open>recalculateRanges\<close> itself.
\<close>

theorem recalculateRanges_rejects_degenerate:
  assumes "items s = Some xs" and "xs \<noteq> []" and "renderEnd r \<le> renderStart r"
  shows "(\<exists>s'. recalculateRanges_with r s = Some s' \<and> renderRange s' = renderRange s)
       \<and> (calculateVisibleRange s = Some r \<longrightarrow>
            (\<exists>s'. recalculateRanges s = Some s' \<and> renderRange s' = renderRange s))"
proof (intro conjI impI)
  show "\<exists>s'. recalculateRanges_with r s = Some s' \<and> renderRange s' = renderRange s"
    using assms by (rule recalculateRanges_with_degenerate)
next
  assume calc: "calculateVisibleRange s = Some r"
  show "\<exists>s'. recalculateRanges s = Some s' \<and> renderRange s' = renderRange s"
  proof (cases "viewport s = None \<or> visibleRowElements s = None \<or> \<not> isInitialized s
                 \<or> isRecalculating s")
    case True
    then show ?thesis by (auto simp: recalculateRanges_def)
  next
    case False
    let ?s1 = "s\<lparr>isRecalculating := True\<rparr>"
    from False have guard: "viewport s \<noteq> None" "visibleRowElements s \<noteq> None"
      "isInitialized s" "\<not> isRecalculating s" by auto
    have "recalculateRanges s = recalculateRanges_with r ?s1"
      using calc by (simp only: recalculateRanges_def Let_def guard)
        (simp add: isInitialized_def)
    moreover have "\<exists>s'. recalculateRanges_with r ?s1 = Some s' \<and> renderRange s' = renderRange ?s1"
      using assms by (intro recalculateRanges_with_degenerate[of _ xs]) simp_all
    ultimately show ?thesis by simp
  qed
qed

theorem recalculateRanges_rejects_degenerate_witness:
  "items detached_feed = Some [10, 11, 12, 13]
   \<and> calculateVisibleRange detached_feed
       = Some \<lparr>renderStart = 0, renderEnd = 0, visibleStart = 0, visibleEnd = 0\<rparr>
   \<and> (\<exists>s'. recalculateRanges_with
               \<lparr>renderStart = 0, renderEnd = 0, visibleStart = 0, visibleEnd = 0\<rparr> detached_feed
             = Some s'
           \<and> renderRange s' = \<lparr>range_start = 1, range_end = 3\<rparr>)
   \<and> (\<exists>s'. recalculateRanges detached_feed = Some s'
           \<and> renderRange s' = \<lparr>range_start = 1, range_end = 3\<rparr>)"
proof -
  have i: "items detached_feed = Some [10, 11, 12, 13]"
    and rr: "renderRange detached_feed = \<lparr>range_start = 1, range_end = 3\<rparr>"
    by (simp_all add: detached_feed_def feed_def initial_vlist_def)
  have c: "calculateVisibleRange detached_feed
       = Some \<lparr>renderStart = 0, renderEnd = 0, visibleStart = 0, visibleEnd = 0\<rparr>"
    by (simp add: calculateVisibleRange_def detached_feed_def feed_def initial_vlist_def Let_def)
  show ?thesis
    using i rr c
      recalculateRanges_rejects_degenerate[OF i, of
        "\<lparr>renderStart = 0, renderEnd = 0, visibleStart = 0, visibleEnd = 0\<rparr>"]
    by simp
qed

text \<open>
  With the viewport present and a non-empty item list the calculator itself never
  returns such a range: the pass reaches the rejection only for a calculator other than
  this one.
\<close>

lemma calculateVisibleRange_loop_nonempty:
  assumes "i \<le> count" and "0 < count" and "rStart < i"
  shows "renderStart (calculateVisibleRange_loop s vp count i rStart vStart vEnd acc)
         < renderEnd (calculateVisibleRange_loop s vp count i rStart vStart vEnd acc)"
  using assms
proof (induction s vp count i rStart vStart vEnd acc rule: calculateVisibleRange_loop.induct)
  case (1 s vp count i rStart vStart vEnd acc)
  show ?case
  proof (cases "i < count")
    case False
    with "1.prems" show ?thesis
      by (subst (1 2) calculateVisibleRange_loop.simps) auto
  next
    case True
    show ?thesis
      apply (subst (1 2) calculateVisibleRange_loop.simps)
      using True "1.prems" "1.IH"[OF True refl refl refl refl refl]
      apply (auto simp: Let_def)
      done
  qed
qed

lemma calculateVisibleRange_nonempty:
  assumes "items s = Some xs" and "xs \<noteq> []" and "viewport s = Some vp"
    and "calculateVisibleRange s = Some r"
  shows "renderStart r < renderEnd r"
  using assms calculateVisibleRange_loop_nonempty[of 0 "int (length xs)" "- 1" s vp "- 1" "- 1" 0]
  by (auto simp: calculateVisibleRange_def Let_def)

section \<open>Jumping to an index\<close>

lemma jumpToIndex_out_of_range:
  "items s = None \<or> (\<exists>xs. items s = Some xs \<and> (index < 0 \<or> int (length xs) \<le> index))
   \<Longrightarrow> jumpToIndex index s = Some s"
  by (auto simp: jumpToIndex_def)

lemma lockedHeights_lockRowHeight_twice:
  "lockedHeights (lockRowHeight i (lockRowHeight i s)) = lockedHeights (lockRowHeight i s)"
  by (auto simp: lockRowHeight_def arr_set_idem split: option.splits)

lemma jumpToIndex_in_range:
  assumes "items s = Some xs" and "0 \<le> index" and "index < int (length xs)"
  shows "\<exists>s'. jumpToIndex index s = Some s'
           \<and> lastScrollDirection s' = None
           \<and> skipNextScrollEvent s'
           \<and> lastJumpToIndex s' = Some index
           \<and> lockedHeights s' = lockedHeights (lockRowHeight index s)
           \<and> (\<forall>h. arr_get (heightMap s) index = Some h \<and> h \<noteq> 0
                  \<longrightarrow> arr_get (lockedHeights s') index = Some h)
           \<and> (viewport s \<noteq> None
                  \<longrightarrow> renderRange s' = \<lparr>range_start = index, range_end = index + 1\<rparr>)
           \<and> (viewport s = None \<longrightarrow> renderRange s' = renderRange s)"
proof -
  define s0 where "s0 = s\<lparr>lastScrollDirection := None, skipNextScrollEvent := True,
                          lastJumpToIndex := Some index\<rparr>"
  define s1 where "s1 = lockRowHeight index s0"
  have jump: "jumpToIndex index s = initializeAt index s1"
    using assms by (simp add: jumpToIndex_def s0_def s1_def)
  have s1_fields: "lastScrollDirection s1 = None" "skipNextScrollEvent s1"
    "lastJumpToIndex s1 = Some index" "items s1 = Some xs" "viewport s1 = viewport s"
    "renderRange s1 = renderRange s" "heightMap s1 = heightMap s"
    "lockedHeights s1 = lockedHeights (lockRowHeight index s)"
    using assms(1) by (auto simp: s1_def s0_def lockRowHeight_def split: option.splits)
  have locked: "arr_get (lockedHeights (lockRowHeight index s)) index = Some h"
    if "arr_get (heightMap s) index = Some h" "h \<noteq> 0" for h
    using that assms(2) by (simp add: lockRowHeight_def arr_get_arr_set)
  show ?thesis
  proof (cases "viewport s")
    case None
    then have "initializeAt index s1 = Some s1"
      using s1_fields by (simp add: initializeAt_def)
    with jump None s1_fields locked show ?thesis by simp
  next
    case (Some vp)
    define s2 where "s2 = s1\<lparr>renderRange := (renderRange s1)\<lparr>range_start := index\<rparr>\<rparr>"
    define s3 where "s3 = (if arr_get (heightMap s2) index \<noteq> None
                           then lockRowHeight index s2 else s2)"
    define s4 where "s4 = s3\<lparr>renderRange := (renderRange s3)\<lparr>range_end := index + 1\<rparr>\<rparr>"
    have init: "initializeAt index s1 = Some s4"
      using Some s1_fields assms(3)
      by (simp add: initializeAt_def Let_def s2_def s3_def s4_def)
    have s2_lock: "lockRowHeight index s2
          = (lockRowHeight index s1)\<lparr>renderRange := (renderRange s1)\<lparr>range_start := index\<rparr>\<rparr>"
      by (auto simp: s2_def lockRowHeight_def split: option.splits)
    have s3_fields: "lastScrollDirection s3 = None" "skipNextScrollEvent s3"
      "lastJumpToIndex s3 = Some index"
      "range_start (renderRange s3) = index"
      using s1_fields by (auto simp: s3_def s2_def lockRowHeight_def split: option.splits)
    have s3_locked: "lockedHeights s3 = lockedHeights (lockRowHeight index s)"
    proof (cases "arr_get (heightMap s2) index \<noteq> None")
      case True
      then have "lockedHeights s3 = lockedHeights (lockRowHeight index s1)"
        by (simp add: s3_def s2_lock)
      also have "\<dots> = lockedHeights (lockRowHeight index (lockRowHeight index s0))"
        by (simp add: s1_def)
      also have "\<dots> = lockedHeights (lockRowHeight index s0)"
        by (rule lockedHeights_lockRowHeight_twice)
      finally show ?thesis using s1_fields by (simp add: s1_def)
    next
      case False
      then show ?thesis using s1_fields by (simp add: s3_def s2_def)
    qed
    have "renderRange s4 = \<lparr>range_start = index, range_end = index + 1\<rparr>"
      using s3_fields by (simp add: s4_def)
    moreover have "lastScrollDirection s4 = None" "skipNextScrollEvent s4"
      "lastJumpToIndex s4 = Some index" "lockedHeights s4 = lockedHeights (lockRowHeight index s)"
      using s3_fields s3_locked by (simp_all add: s4_def)
    ultimately show ?thesis
      using jump init Some locked by simp
  qed
qed

text \<open>
  Claim C7, amended. \<open>jumpToIndex\<close> returns with the state unchanged when the item list
  is absent or the index is outside \<open>0 \<le> i < items.length\<close>. For an index inside, it
  clears the scroll direction, sets the suppression flag, records the jump target and
  locks the height at the index as \<open>lockRowHeight\<close> does; with the viewport present the
  render range is then \<open>{start: i, end: i + 1}\<close> when \<open>initializeAt\<close> first suspends,
  and with the viewport absent the render range is left as it was.
\<close>

theorem jumpToIndex_validates:
  "(items s = None \<or> (\<exists>xs. items s = Some xs \<and> (index < 0 \<or> int (length xs) \<le> index))
      \<longrightarrow> jumpToIndex index s = Some s)
   \<and> (\<forall>xs. items s = Some xs \<and> 0 \<le> index \<and> index < int (length xs) \<longrightarrow>
        (\<exists>s'. jumpToIndex index s = Some s'
           \<and> lastScrollDirection s' = None
           \<and> skipNextScrollEvent s'
           \<and> lastJumpToIndex s' = Some index
           \<and> lockedHeights s' = lockedHeights (lockRowHeight index s)
           \<and> (\<forall>h. arr_get (heightMap s) index = Some h \<and> h \<noteq> 0
                  \<longrightarrow> arr_get (lockedHeights s') index = Some h)
           \<and> (viewport s \<noteq> None
                  \<longrightarrow> renderRange s' = \<lparr>range_start = index, range_end = index + 1\<rparr>)
           \<and> (viewport s = None \<longrightarrow> renderRange s' = renderRange s)))"
  using jumpToIndex_out_of_range[of s index] jumpToIndex_in_range[of s _ index]
  by blast

theorem jumpToIndex_validates_witness:
  "jumpToIndex 4 feed = Some feed \<and> jumpToIndex (- 1) feed = Some feed
   \<and> jumpToIndex 0 (feed\<lparr>items := None\<rparr>) = Some (feed\<lparr>items := None\<rparr>)
   \<and> (\<exists>s'. jumpToIndex 3 feed = Some s'
         \<and> lastScrollDirection s' = None \<and> skipNextScrollEvent s'
         \<and> arr_get (lockedHeights s') 3 = Some 60
         \<and> renderRange s' = \<lparr>range_start = 3, range_end = 4\<rparr>)
   \<and> (\<exists>s'. jumpToIndex 0 detached_feed = Some s'
         \<and> renderRange s' = \<lparr>range_start = 1, range_end = 3\<rparr>)"
proof -
  have f: "items feed = Some [10, 11, 12, 13]" "viewport feed \<noteq> None"
    "arr_get (heightMap feed) 3 = Some 60"
    "items detached_feed = Some [10, 11, 12, 13]" "viewport detached_feed = None"
    "renderRange detached_feed = \<lparr>range_start = 1, range_end = 3\<rparr>"
    by (simp_all add: detached_feed_def feed_def initial_vlist_def arr_get_def)
  show ?thesis
    using f jumpToIndex_validates[of feed 4] jumpToIndex_validates[of feed "- 1"]
      jumpToIndex_validates[of "feed\<lparr>items := None\<rparr>" 0]
      jumpToIndex_validates[of feed 3] jumpToIndex_validates[of detached_feed 0]
    by auto
qed

text \<open>
  The claim as first stated had every valid index re-initialize the render range. With
  the viewport gone \<open>initializeAt\<close> returns at once: the jump to row 0 records its target
  and leaves the render range at rows 1 and 2.
\<close>

theorem jumpToIndex_detached_counterexample:
  "items detached_feed = Some [10, 11, 12, 13]
   \<and> viewport detached_feed = None
   \<and> map_option lastJumpToIndex (jumpToIndex 0 detached_feed) = Some (Some 0)
   \<and> map_option renderRange (jumpToIndex 0 detached_feed)
       = Some \<lparr>range_start = 1, range_end = 3\<rparr>"
  by (simp add: jumpToIndex_def initializeAt_def lockRowHeight_def detached_feed_def feed_def
      initial_vlist_def arr_get_def)

end
